theory Spec2Isabelle
  imports Main "HOL-Library.Sublist"
begin

section \<open>Python string primitives used by the pipeline\<close>

text \<open>
  A Python \<open>str\<close> is modelled as a \<open>string\<close>, one \<open>char\<close> per character (code points
  0 to 255), so that \<open>length\<close> is Python's \<open>len\<close>, \<open>take n\<close> is the slice \<open>s[:n]\<close> and
  \<open>@\<close> is concatenation.
\<close>

definition NL :: char where
  "NL = CHR 0x0A"

text \<open>
  \<open>str.isspace\<close> for one character, on the code points below 256: tab, line feed,
  vertical tab, form feed, carriage return, the separators 0x1C to 0x1F, space, NEL and
  the no-break space. This is the set that \<open>str.strip()\<close> and \<open>str.split()\<close> remove.
\<close>

definition is_space :: "char \<Rightarrow> bool" where
  "is_space c = (c \<in> set [CHR 0x09, CHR 0x0A, CHR 0x0B, CHR 0x0C, CHR 0x0D,
                           CHR 0x1C, CHR 0x1D, CHR 0x1E, CHR 0x1F, CHR 0x20,
                           CHR 0x85, CHR 0xA0])"

text \<open>\<open>s.strip()\<close>\<close>

definition strip :: "string \<Rightarrow> string" where
  "strip s = rev (dropWhile is_space (rev (dropWhile is_space s)))"

text \<open>\<open>s.find(sub)\<close>: the index of the first occurrence, \<open>None\<close> for Python's -1.\<close>

fun find_str :: "string \<Rightarrow> string \<Rightarrow> nat option" where
  "find_str sub [] = (if sub = [] then Some 0 else None)"
| "find_str sub (c # cs) =
     (if prefix sub (c # cs) then Some 0 else map_option Suc (find_str sub cs))"

text \<open>\<open>sub in s\<close>\<close>

definition contains :: "string \<Rightarrow> string \<Rightarrow> bool" where
  "contains sub s = (find_str sub s \<noteq> None)"

text \<open>
  \<open>s.split(sep, 1)[1]\<close> and \<open>s.split(sep)[0]\<close> (also \<open>s.split(sep, 1)[0]\<close>) for a
  separator that occurs in \<open>s\<close>: the text after, and the text before, the first
  occurrence. The source calls them only under the guard \<open>sep in s\<close>; where the separator
  does not occur, \<open>split\<close> returns the one-element list \<open>[s]\<close>, so index 0 is \<open>s\<close> and
  index 1 does not exist. Every separator of the source is a non-empty literal (an empty
  one would raise \<open>ValueError\<close>).
\<close>

definition before_first :: "string \<Rightarrow> string \<Rightarrow> string" where
  "before_first sep s = (case find_str sep s of None \<Rightarrow> s | Some i \<Rightarrow> take i s)"

definition after_first :: "string \<Rightarrow> string \<Rightarrow> string option" where
  "after_first sep s =
     (case find_str sep s of None \<Rightarrow> None | Some i \<Rightarrow> Some (drop (i + length sep) s))"

text \<open>
  \<open>s.replace(old, new)\<close>: the occurrences of \<open>old\<close> are replaced from left to right
  without overlap; an empty \<open>old\<close> matches before every character and at the end.
\<close>

function replace :: "string \<Rightarrow> string \<Rightarrow> string \<Rightarrow> string" where
  "replace old new [] = (if old = [] then new else [])"
| "replace old new (c # cs) =
     (if old = [] then new @ c # replace old new cs
      else if prefix old (c # cs) then new @ replace old new (drop (length old) (c # cs))
      else c # replace old new cs)"
  by pat_completeness auto
termination
  by (relation "measure (\<lambda>(old, new, s). length s)") (auto simp: neq_Nil_conv)

text \<open>\<open>s.split()\<close>: the maximal runs of non-whitespace characters, in order.\<close>

fun split_ws_from :: "string \<Rightarrow> string \<Rightarrow> string list" where
  "split_ws_from w [] = (if w = [] then [] else [w])"
| "split_ws_from w (c # cs) =
     (if is_space c then (if w = [] then split_ws_from [] cs else w # split_ws_from [] cs)
      else split_ws_from (w @ [c]) cs)"

definition split_ws :: "string \<Rightarrow> string list" where
  "split_ws s = split_ws_from [] s"

text \<open>\<open>sep.join(xs)\<close>\<close>

fun join :: "string \<Rightarrow> string list \<Rightarrow> string" where
  "join sep [] = []"
| "join sep [x] = x"
| "join sep (x # y # ys) = x @ sep @ join sep (y # ys)"

section \<open>Section Isolator: \<open>PaperSummarizerAgent._find_abstract\<close>\<close>

definition start_keywords :: "string list" where
  "start_keywords =
     [''Abstract'', ''ABSTRACT'', ''Summary'', ''Introduction'', ''1. Introduction'',
      ''I. INTRODUCTION'']"

definition end_keywords :: "string list" where
  "end_keywords =
     [''Keywords:'', ''Key words:'', ''1. Introduction'', ''1 Introduction'',
      ''I. INTRODUCTION'', ''Contents'', ''Introduction'' @ [NL]]"

text \<open>
  The first loop: the first keyword of the list that occurs in the text wins, and the
  text after its first occurrence is kept (\<open>break\<close>). \<open>None\<close> is \<open>found_start = False\<close>.
\<close>

fun find_start :: "string list \<Rightarrow> string \<Rightarrow> string option" where
  "find_start [] text = None"
| "find_start (keyword # ks) text =
     (if contains keyword text then after_first keyword text else find_start ks text)"

text \<open>The text the second loop works on: after the start marker, or \<open>text[:3000]\<close>.\<close>

definition start_stage :: "string \<Rightarrow> string" where
  "start_stage text =
     (case find_start start_keywords text of Some e \<Rightarrow> e | None \<Rightarrow> take 3000 text)"

text \<open>The second loop: the first keyword that occurs cuts the text there (\<open>break\<close>).\<close>

fun find_end :: "string list \<Rightarrow> string \<Rightarrow> string" where
  "find_end [] extracted = extracted"
| "find_end (keyword # ks) extracted =
     (if contains keyword extracted then before_first keyword extracted
      else find_end ks extracted)"

text \<open>\<open>x.strip().replace("\n", " ")\<close>, the final cleanup.\<close>

definition cleanup :: "string \<Rightarrow> string" where
  "cleanup s = replace [NL] '' '' (strip s)"

text \<open>The value of \<open>cleaned\<close> before the length check.\<close>

definition marker_extract :: "string \<Rightarrow> string" where
  "marker_extract text = cleanup (find_end end_keywords (start_stage text))"

definition find_abstract :: "string \<Rightarrow> string" where
  "find_abstract text =
     (let cleaned = marker_extract text
      in if length cleaned < 50 then replace [NL] '' '' (take 2000 text) else cleaned)"

section \<open>Exceptions\<close>

text \<open>
  The exceptions of the \<open>Exception\<close> hierarchy that the pipeline can meet:
  \<open>FileNotFoundError\<close>, which the extractor catches by name, \<open>KeyError\<close>, which a
  lookup of a missing dictionary key raises, and every other exception. Each one
  carries the text that \<open>str(e)\<close> gives for it, already rendered: for a \<open>KeyError\<close>
  that text is the \<open>repr\<close> of the key, quotes and escapes included, not the key.
\<close>

datatype exn = FileNotFoundError string | KeyError string | OtherError string

text \<open>\<open>str(e)\<close>\<close>

fun str_exn :: "exn \<Rightarrow> string" where
  "str_exn (FileNotFoundError msg) = msg"
| "str_exn (KeyError msg) = msg"
| "str_exn (OtherError msg) = msg"

section \<open>Output Sanitizer and model wrapper: \<open>SummarizerModel.summarize\<close>\<close>

definition stop_phrases :: "string list" where
  "stop_phrases =
     [''Question:'', ''Questions:'', ''[QUESTION'', ''[Q:'', ''Q:'',
      ''References:'', ''Reference:'', ''Bibliography:'',
      [NL, NL] @ ''##'', ''##'',
      ''Introduction:'', ''Conclusion:'',
      ''Note:'', ''Notes:'',
      ''Acknowledgment'', ''Acknowledgement'',
      ''Appendix'', ''Figure'', ''Table'']"

text \<open>
  The loop over the stop phrases: \<open>if phrase in summary: summary =
  summary.split(phrase)[0].strip()\<close>, for each phrase in turn, on the summary as the
  previous phrases left it.
\<close>

fun cut_stop_phrases :: "string list \<Rightarrow> string \<Rightarrow> string" where
  "cut_stop_phrases [] summary = summary"
| "cut_stop_phrases (phrase # ps) summary =
     cut_stop_phrases ps
       (if contains phrase summary then strip (before_first phrase summary) else summary)"

text \<open>
  Everything \<open>summarize\<close> does after decoding the model's output: from \<open>full_output\<close>
  and the prompt to the returned summary.
\<close>

definition sanitize :: "string \<Rightarrow> string \<Rightarrow> string" where
  "sanitize full_output prompt =
     (let summary =
            (if contains ''Summary:'' full_output
             then strip (case after_first ''Summary:'' full_output of
                           Some rest \<Rightarrow> rest | None \<Rightarrow> full_output)
             else strip (replace prompt [] full_output));
          summary = cut_stop_phrases stop_phrases summary;
          summary = join '' '' (split_ws summary)
      in if length summary > 800 then take 800 summary else summary)"

text \<open>
  The same procedure as the specification words it, to compare with \<open>sanitize\<close>: keep
  the text after \<open>Summary:\<close> (or remove the prompt), cut at the first occurrence of each
  stop phrase in list order with no stripping in between, collapse the whitespace, clip
  to 800 characters.
\<close>

fun spec_cut_stop_phrases :: "string list \<Rightarrow> string \<Rightarrow> string" where
  "spec_cut_stop_phrases [] summary = summary"
| "spec_cut_stop_phrases (phrase # ps) summary =
     spec_cut_stop_phrases ps
       (if contains phrase summary then before_first phrase summary else summary)"

definition spec_sanitize :: "string \<Rightarrow> string \<Rightarrow> string" where
  "spec_sanitize raw_model_output prompt =
     (let summary =
            (if contains ''Summary:'' raw_model_output
             then strip (case after_first ''Summary:'' raw_model_output of
                           Some rest \<Rightarrow> rest | None \<Rightarrow> raw_model_output)
             else strip (replace prompt [] raw_model_output));
          summary = spec_cut_stop_phrases stop_phrases summary;
          summary = join '' '' (split_ws summary)
      in take 800 summary)"

text \<open>A string that is empty or starts with a character that is not whitespace.\<close>

definition no_leading_space :: "string \<Rightarrow> bool" where
  "no_leading_space s = (s = [] \<or> \<not> is_space (hd s))"

definition make_prompt :: "string \<Rightarrow> string" where
  "make_prompt text =
     ''You are an academic paper summarizer. Provide a concise, single-paragraph summary of the following abstract.''
     @ [NL, NL] @ ''Abstract:'' @ [NL] @ take 2000 text @ [NL, NL] @ ''Summary:''"

text \<open>
  The tokenizer, the language model and the decoder are external: \<open>generate\<close> stands for
  the three together during one run, from the prompt to the decoded \<open>full_output\<close>, or
  to the exception that one of them raises.
\<close>

definition summarize :: "(string \<Rightarrow> exn + string) \<Rightarrow> string \<Rightarrow> exn + string" where
  "summarize generate text =
     (let prompt = make_prompt text
      in case generate prompt of
           Inl e \<Rightarrow> Inl e
         | Inr full_output \<Rightarrow> Inr (sanitize full_output prompt))"

section \<open>Text Extractor: \<open>extract_text_from_pdf\<close>\<close>

text \<open>
  What PyPDF2 gives for an opened file. Reading the page list, reading the document
  information and extracting the text of a page may each raise.
\<close>

record pdf_reader =
  pages :: "exn + (exn + string) list"
  doc_info :: "exn + (string \<rightharpoonup> string) option"

record pdf_meta =
  num_pages :: nat
  title :: string

text \<open>
  The dictionary that \<open>extract_text_from_pdf\<close> returns; \<open>extracted_text\<close> is its key
  \<open>'text'\<close>. \<open>metadata\<close> is \<open>None\<close> for the empty dictionary of the failure branches,
  \<open>error\<close> is \<open>None\<close> where the key is absent.
\<close>

record extraction_result =
  extracted_text :: string
  metadata :: "pdf_meta option"
  success :: bool
  error :: "string option"

text \<open>The loop over the pages: \<open>if text: full_text += text + "\n"\<close>.\<close>

fun collect_pages :: "(exn + string) list \<Rightarrow> string \<Rightarrow> exn + string" where
  "collect_pages [] full_text = Inr full_text"
| "collect_pages (page # ps) full_text =
     (case page of
        Inl e \<Rightarrow> Inl e
      | Inr t \<Rightarrow> collect_pages ps (if t \<noteq> [] then full_text @ t @ [NL] else full_text))"

text \<open>
  The body of the \<open>try\<close>. \<open>file_system\<close> stands for \<open>open\<close> followed by
  \<open>PyPDF2.PdfReader\<close>: the reader, or the exception raised on the way.
\<close>

definition extract_body ::
  "(string \<Rightarrow> exn + pdf_reader) \<Rightarrow> string \<Rightarrow> exn + extraction_result" where
  "extract_body file_system pdf_path =
     (case file_system pdf_path of
        Inl e \<Rightarrow> Inl e
      | Inr pdf_reader \<Rightarrow>
          (case pages pdf_reader of
             Inl e \<Rightarrow> Inl e
           | Inr ps \<Rightarrow>
               (case doc_info pdf_reader of
                  Inl e \<Rightarrow> Inl e
                | Inr info \<Rightarrow>
                    (case collect_pages ps [] of
                       Inl e \<Rightarrow> Inl e
                     | Inr full_text \<Rightarrow>
                         Inr \<lparr> extracted_text = strip (replace [NL, NL] [NL] full_text),
                               metadata = Some \<lparr> num_pages = length ps,
                                  title = (case info of
                                             None \<Rightarrow> ''Unknown''
                                           | Some d \<Rightarrow> (case d ''/Title'' of
                                                          None \<Rightarrow> ''Unknown''
                                                        | Some t \<Rightarrow> t)) \<rparr>,
                               success = True,
                               error = None \<rparr>))))"

text \<open>
  The function with its two handlers. The result is a sum so that an exception leaving
  the function would be a value \<open>Inl\<close>.
\<close>

definition extract_text_from_pdf ::
  "(string \<Rightarrow> exn + pdf_reader) \<Rightarrow> string \<Rightarrow> exn + extraction_result" where
  "extract_text_from_pdf file_system pdf_path =
     (case extract_body file_system pdf_path of
        Inr r \<Rightarrow> Inr r
      | Inl (FileNotFoundError msg) \<Rightarrow>
          Inr \<lparr> extracted_text = [], metadata = None, success = False,
                error = Some (''File not found: '' @ pdf_path) \<rparr>
      | Inl e \<Rightarrow>
          Inr \<lparr> extracted_text = [], metadata = None, success = False,
                error = Some (str_exn e) \<rparr>)"

section \<open>Planner and Executor: \<open>PaperSummarizerAgent\<close>\<close>

record plan_step =
  step :: nat
  action :: string
  input :: string
  description :: string

definition create_plan :: "string \<Rightarrow> plan_step list" where
  "create_plan pdf_path =
     [\<lparr> step = 1, action = ''extract_text'', input = pdf_path,
        description = ''Extract all text from PDF'' \<rparr>,
      \<lparr> step = 2, action = ''clean_text'', input = ''extracted_text'',
        description = ''Isolate relevant sections (abstract/introduction)'' \<rparr>,
      \<lparr> step = 3, action = ''summarize'', input = ''clean_text'',
        description = ''Generate concise summary'' \<rparr>,
      \<lparr> step = 4, action = ''format_output'', input = ''summary'',
        description = ''Format and finalize output'' \<rparr>]"

text \<open>The values of the \<open>results\<close> dictionary: the extraction result, or a string.\<close>

datatype val = Extraction extraction_result | Str string

type_synonym results = "string \<rightharpoonup> val"

text \<open>How the body of one loop iteration ends: it falls through, or it returns.\<close>

datatype flow = Next results | Return results

text \<open>
  The body of the \<open>try\<close> for one step. A missing key raises \<open>KeyError\<close>, whose text is
  the key between single quotes (the \<open>repr\<close> of these three literal keys); a value of the
  wrong kind under a key (which \<open>execute_plan\<close> itself never stores) raises a
  \<open>TypeError\<close>. Every exception is raised before the step stores anything.
\<close>

definition step_body ::
  "(string \<Rightarrow> exn + string) \<Rightarrow> (string \<Rightarrow> exn + pdf_reader) \<Rightarrow> plan_step \<Rightarrow> results
     \<Rightarrow> exn + flow" where
  "step_body generate file_system st results =
     (if action st = ''extract_text'' then
        (case extract_text_from_pdf file_system (input st) of
           Inl e \<Rightarrow> Inl e
         | Inr x \<Rightarrow>
             (let results = results(''extracted'' \<mapsto> Extraction x)
              in if \<not> success x then Inr (Return results) else Inr (Next results)))
      else if action st = ''clean_text'' then
        (case results ''extracted'' of
           None \<Rightarrow> Inl (KeyError ([CHR 0x27] @ ''extracted'' @ [CHR 0x27]))
         | Some (Str s) \<Rightarrow> Inl (OtherError ''TypeError'')
         | Some (Extraction x) \<Rightarrow>
             Inr (Next (results(''clean_text'' \<mapsto> Str (find_abstract (extracted_text x))))))
      else if action st = ''summarize'' then
        (case results ''clean_text'' of
           None \<Rightarrow> Inl (KeyError ([CHR 0x27] @ ''clean_text'' @ [CHR 0x27]))
         | Some (Extraction x) \<Rightarrow> Inl (OtherError ''TypeError'')
         | Some (Str clean) \<Rightarrow>
             (case summarize generate clean of
                Inl e \<Rightarrow> Inl e
              | Inr summary \<Rightarrow> Inr (Next (results(''summary'' \<mapsto> Str summary)))))
      else if action st = ''format_output'' then
        (case results ''summary'' of
           None \<Rightarrow> Inl (KeyError ([CHR 0x27] @ ''summary'' @ [CHR 0x27]))
         | Some v \<Rightarrow> Inr (Next (results(''final_summary'' \<mapsto> v))))
      else Inr (Next results))"

text \<open>The \<open>try\<close> with its handler: \<open>results['error'] = str(e); return results\<close>.\<close>

definition run_step ::
  "(string \<Rightarrow> exn + string) \<Rightarrow> (string \<Rightarrow> exn + pdf_reader) \<Rightarrow> plan_step \<Rightarrow> results
     \<Rightarrow> flow" where
  "run_step generate file_system st results =
     (case step_body generate file_system st results of
        Inl e \<Rightarrow> Return (results(''error'' \<mapsto> Str (str_exn e)))
      | Inr f \<Rightarrow> f)"

fun run_steps ::
  "(string \<Rightarrow> exn + string) \<Rightarrow> (string \<Rightarrow> exn + pdf_reader) \<Rightarrow> plan_step list \<Rightarrow> results
     \<Rightarrow> results" where
  "run_steps generate file_system [] results = results"
| "run_steps generate file_system (st # sts) results =
     (case run_step generate file_system st results of
        Return r \<Rightarrow> r
      | Next r \<Rightarrow> run_steps generate file_system sts r)"

definition execute_plan ::
  "(string \<Rightarrow> exn + string) \<Rightarrow> (string \<Rightarrow> exn + pdf_reader) \<Rightarrow> plan_step list \<Rightarrow> results" where
  "execute_plan generate file_system plan = run_steps generate file_system plan Map.empty"

section \<open>Facts about the string primitives\<close>

text \<open>
  \<open>find_str\<close> returns a position where the pattern starts, and it is the first one: a
  pattern that does not occur in \<open>pre\<close> extended by all but the last character of the
  pattern is found in \<open>pre @ k @ post\<close> exactly at \<open>length pre\<close>.
\<close>

lemma find_str_prefix: "find_str k s = Some i \<Longrightarrow> i \<le> length s \<and> prefix k (drop i s)"
proof (induction s arbitrary: i)
  case Nil
  then show ?case by (simp split: if_splits)
next
  case (Cons c cs)
  show ?case
  proof (cases "prefix k (c # cs)")
    case True
    with Cons.prems show ?thesis by simp
  next
    case False
    with Cons.prems obtain j where j: "find_str k cs = Some j" "i = Suc j"
      by auto
    with Cons.IH [of j] show ?thesis by simp
  qed
qed

lemma contains_length: "contains k s \<Longrightarrow> length k \<le> length s"
proof -
  assume "contains k s"
  then obtain i where i: "find_str k s = Some i" by (auto simp: contains_def)
  from find_str_prefix [OF i] have "prefix k (drop i s)" by simp
  then have "length k \<le> length (drop i s)" by (rule prefix_length_le)
  then show ?thesis by simp
qed

lemma contains_Cons: "contains k (c # cs) \<longleftrightarrow> prefix k (c # cs) \<or> contains k cs"
  by (simp add: contains_def)

lemma find_str_first:
  "k \<noteq> [] \<Longrightarrow> \<not> contains k (pre @ butlast k) \<Longrightarrow> find_str k (pre @ k @ post) = Some (length pre)"
proof (induction pre)
  case Nil
  then obtain c cs where "k = c # cs" by (cases k) auto
  then show ?case by simp
next
  case (Cons p ps)
  have np: "\<not> prefix k (p # ps @ k @ post)"
  proof
    assume pk: "prefix k (p # ps @ k @ post)"
    have "length k \<le> length (p # ps @ butlast k)" using Cons.prems(1) by simp
    moreover have "prefix (p # ps @ butlast k) (p # ps @ k @ post)"
      by (metis Cons_prefix_Cons append_butlast_last_id Cons.prems(1) append.assoc prefix_def same_prefix_prefix)
    ultimately have "prefix k (p # ps @ butlast k)"
      using pk by (metis prefix_length_prefix)
    with Cons.prems(2) show False by (simp add: contains_Cons)
  qed
  from Cons.prems(2) have "\<not> contains k (ps @ butlast k)" by (simp add: contains_Cons)
  with Cons.IH Cons.prems(1) have "find_str k (ps @ k @ post) = Some (length ps)" by simp
  with np show ?case by simp
qed

lemma before_first_eq:
  "k \<noteq> [] \<Longrightarrow> \<not> contains k (pre @ butlast k) \<Longrightarrow> before_first k (pre @ k @ post) = pre"
  by (simp add: before_first_def find_str_first)

lemma after_first_eq:
  "k \<noteq> [] \<Longrightarrow> \<not> contains k (pre @ butlast k) \<Longrightarrow> after_first k (pre @ k @ post) = Some post"
  by (simp add: after_first_def find_str_first)

lemma contains_first:
  "k \<noteq> [] \<Longrightarrow> \<not> contains k (pre @ butlast k) \<Longrightarrow> contains k (pre @ k @ post)"
  by (simp add: contains_def find_str_first)

lemma length_replace_char: "length (replace [a] [b] s) = length s"
  by (induction s) auto

lemma length_strip_le: "length (strip s) \<le> length s"
proof -
  have "length (strip s) \<le> length (dropWhile is_space s)"
    unfolding strip_def using length_dropWhile_le [of is_space "rev (dropWhile is_space s)"] by simp
  also have "\<dots> \<le> length s" by (rule length_dropWhile_le)
  finally show ?thesis .
qed

lemma length_before_first_le: "length (before_first k s) \<le> length s"
  by (simp add: before_first_def split: option.splits)

lemma length_after_first_le: "after_first k s = Some r \<Longrightarrow> length r \<le> length s"
  by (auto simp: after_first_def split: option.splits)

lemma length_find_start_le: "find_start ks s = Some r \<Longrightarrow> length r \<le> length s"
  by (induction ks) (auto split: if_splits dest: length_after_first_le)

lemma length_find_end_le: "length (find_end ks s) \<le> length s"
  by (induction ks) (auto simp: length_before_first_le)

lemma length_start_stage_le: "length (start_stage s) \<le> length s"
  by (auto simp: start_stage_def split: option.splits dest: length_find_start_le)

lemma length_marker_extract_le: "length (marker_extract s) \<le> length s"
proof -
  have "length (marker_extract s) \<le> length (find_end end_keywords (start_stage s))"
    by (simp add: marker_extract_def cleanup_def length_replace_char length_strip_le)
  also have "\<dots> \<le> length (start_stage s)" by (rule length_find_end_le)
  also have "\<dots> \<le> length s" by (rule length_start_stage_le)
  finally show ?thesis .
qed

text \<open>
  Priority by list position: the keyword at position \<open>i\<close> wins as soon as no keyword
  listed before it occurs in the text, wherever the keywords listed after it occur.
\<close>

lemma find_start_priority:
  "i < length ks \<Longrightarrow> ks ! i \<noteq> [] \<Longrightarrow> \<not> contains (ks ! i) (pre @ butlast (ks ! i)) \<Longrightarrow>
   (\<forall>j<i. \<not> contains (ks ! j) (pre @ ks ! i @ post)) \<Longrightarrow>
   find_start ks (pre @ ks ! i @ post) = Some post"
proof (induction ks arbitrary: i)
  case Nil
  then show ?case by simp
next
  case (Cons k ks)
  show ?case
  proof (cases i)
    case 0
    with Cons.prems show ?thesis by (simp add: contains_first after_first_eq)
  next
    case (Suc n)
    with Cons.prems have "\<not> contains k (pre @ (k # ks) ! i @ post)" by auto
    moreover from Suc Cons.prems have "find_start ks (pre @ ks ! n @ post) = Some post"
      by (intro Cons.IH) auto
    ultimately show ?thesis using Suc by simp
  qed
qed

lemma find_end_priority:
  "i < length ks \<Longrightarrow> ks ! i \<noteq> [] \<Longrightarrow> \<not> contains (ks ! i) (pre @ butlast (ks ! i)) \<Longrightarrow>
   (\<forall>j<i. \<not> contains (ks ! j) (pre @ ks ! i @ post)) \<Longrightarrow>
   find_end ks (pre @ ks ! i @ post) = pre"
proof (induction ks arbitrary: i)
  case Nil
  then show ?case by simp
next
  case (Cons k ks)
  show ?case
  proof (cases i)
    case 0
    with Cons.prems show ?thesis by (simp add: contains_first before_first_eq)
  next
    case (Suc n)
    with Cons.prems have "\<not> contains k (pre @ (k # ks) ! i @ post)" by auto
    moreover from Suc Cons.prems have "find_end ks (pre @ ks ! n @ post) = pre"
      by (intro Cons.IH) auto
    ultimately show ?thesis using Suc by simp
  qed
qed

lemma start_keywords_nonempty: "i < length start_keywords \<Longrightarrow> start_keywords ! i \<noteq> []"
proof -
  have "\<forall>k \<in> set start_keywords. k \<noteq> []" by (simp add: start_keywords_def)
  then show "i < length start_keywords \<Longrightarrow> start_keywords ! i \<noteq> []" by (metis nth_mem)
qed

lemma end_keywords_nonempty: "i < length end_keywords \<Longrightarrow> end_keywords ! i \<noteq> []"
proof -
  have "\<forall>k \<in> set end_keywords. k \<noteq> []" by (simp add: end_keywords_def)
  then show "i < length end_keywords \<Longrightarrow> end_keywords ! i \<noteq> []" by (metis nth_mem)
qed

lemma start_stage_Abstract:
  assumes "\<not> contains ''Abstract'' (pre @ ''Abstrac'')"
  shows "start_stage (pre @ ''Abstract'' @ post) = post"
proof -
  have "find_start start_keywords (pre @ start_keywords ! 0 @ post) = Some post"
    using assms by (intro find_start_priority) (simp_all add: start_keywords_def)
  then show ?thesis by (simp add: start_stage_def start_keywords_def)
qed

lemma find_end_Keywords:
  assumes "\<not> contains ''Keywords:'' (mid @ ''Keywords'')"
  shows "find_end end_keywords (mid @ ''Keywords:'' @ post) = mid"
proof -
  have "find_end end_keywords (mid @ end_keywords ! 0 @ post) = mid"
    using assms by (intro find_end_priority) (simp_all add: end_keywords_def)
  then show ?thesis by (simp add: end_keywords_def)
qed

section \<open>Facts about the executor on the fixed plan\<close>

text \<open>
  The three ways in which the plan of \<open>create_plan\<close> can end: the extractor reports
  failure, the model call raises, or all four steps run.
\<close>

lemma plan_failed_extraction:
  "extract_text_from_pdf file_system pdf_path = Inr x \<Longrightarrow> \<not> success x \<Longrightarrow>
     execute_plan generate file_system (create_plan pdf_path) = [''extracted'' \<mapsto> Extraction x]"
  by (simp add: execute_plan_def create_plan_def run_step_def step_body_def)

lemma plan_summarizer_raises:
  assumes "extract_text_from_pdf file_system pdf_path = Inr x" and "success x"
    and "generate (make_prompt (find_abstract (extracted_text x))) = Inl e"
  shows "execute_plan generate file_system (create_plan pdf_path) =
           [''extracted'' \<mapsto> Extraction x,
            ''clean_text'' \<mapsto> Str (find_abstract (extracted_text x)),
            ''error'' \<mapsto> Str (str_exn e)]"
  using assms
  by (simp add: execute_plan_def create_plan_def run_step_def step_body_def summarize_def)

lemma plan_success:
  assumes "extract_text_from_pdf file_system pdf_path = Inr x" and "success x"
    and "generate (make_prompt (find_abstract (extracted_text x))) = Inr full_output"
  shows "execute_plan generate file_system (create_plan pdf_path) =
           [''extracted'' \<mapsto> Extraction x,
            ''clean_text'' \<mapsto> Str (find_abstract (extracted_text x)),
            ''summary'' \<mapsto> Str (sanitize full_output (make_prompt (find_abstract (extracted_text x)))),
            ''final_summary'' \<mapsto> Str (sanitize full_output (make_prompt (find_abstract (extracted_text x))))]"
  using assms
  by (simp add: execute_plan_def create_plan_def run_step_def step_body_def summarize_def)

lemma extract_text_from_pdf_returns: "\<exists>x. extract_text_from_pdf file_system pdf_path = Inr x"
  by (auto simp: extract_text_from_pdf_def split: sum.splits exn.splits)

lemma final_summary_needs_all_steps:
  assumes "''final_summary'' \<in> dom (execute_plan generate file_system (create_plan pdf_path))"
  shows "{''extracted'', ''clean_text'', ''summary''}
           \<subseteq> dom (execute_plan generate file_system (create_plan pdf_path))
         \<and> ''error'' \<notin> dom (execute_plan generate file_system (create_plan pdf_path))"
proof -
  obtain x where x: "extract_text_from_pdf file_system pdf_path = Inr x"
    using extract_text_from_pdf_returns by blast
  show ?thesis
  proof (cases "success x")
    case False
    with x assms show ?thesis by (simp add: plan_failed_extraction)
  next
    case True
    show ?thesis
    proof (cases "generate (make_prompt (find_abstract (extracted_text x)))")
      case (Inl e)
      with x True assms show ?thesis by (simp add: plan_summarizer_raises)
    next
      case (Inr full_output)
      with x True show ?thesis by (simp add: plan_success)
    qed
  qed
qed

section \<open>Facts about the sanitizer\<close>

text \<open>
  No stop phrase is empty or ends in whitespace, so stripping the summary between two
  cuts never changes where the next phrase is found: the loop of the source and the
  loop without the strips agree up to trailing whitespace, which the final
  \<open>" ".join(summary.split())\<close> removes.
\<close>

lemma find_str_spaces:
  "\<forall>c\<in>set w. is_space c \<Longrightarrow> p \<noteq> [] \<Longrightarrow> \<not> is_space (last p) \<Longrightarrow> find_str p w = None"
proof (induction w)
  case Nil
  then show ?case by simp
next
  case (Cons c cs)
  have "\<not> prefix p (c # cs)"
  proof
    assume "prefix p (c # cs)"
    then have "set p \<subseteq> set (c # cs)" by (rule set_mono_prefix)
    moreover have "last p \<in> set p" using Cons.prems(2) by simp
    ultimately show False using Cons.prems(1,3) by auto
  qed
  with Cons show ?case by simp
qed

lemma prefix_trailing_spaces:
  assumes "\<forall>c\<in>set w. is_space c" and "p \<noteq> []" and "\<not> is_space (last p)"
  shows "prefix p (r @ w) \<longleftrightarrow> prefix p r"
proof
  assume pr: "prefix p (r @ w)"
  show "prefix p r"
  proof (rule ccontr)
    assume np: "\<not> prefix p r"
    from pr obtain us where us: "p = r @ us" "us \<noteq> []" "prefix us w"
      using np by (auto simp: prefix_append)
    then have "last p = last us" by simp
    moreover have "last us \<in> set us" using us(2) by simp
    moreover have "set us \<subseteq> set w" using us(3) by (rule set_mono_prefix)
    ultimately show False using assms(1,3) by auto
  qed
next
  assume "prefix p r"
  then show "prefix p (r @ w)" by (rule prefix_prefix)
qed

lemma find_str_trailing_spaces:
  assumes "\<forall>c\<in>set w. is_space c" and "p \<noteq> []" and "\<not> is_space (last p)"
  shows "find_str p (r @ w) = find_str p r"
proof (induction r)
  case Nil
  from assms show ?case by (simp add: find_str_spaces)
next
  case (Cons c cs)
  have "prefix p ((c # cs) @ w) \<longleftrightarrow> prefix p (c # cs)"
    using assms by (rule prefix_trailing_spaces)
  with Cons show ?case by simp
qed

lemma strip_decompose:
  assumes "no_leading_space s"
  shows "\<exists>w. s = strip s @ w \<and> (\<forall>c\<in>set w. is_space c)"
proof -
  from assms have d: "dropWhile is_space s = s"
    by (cases s) (auto simp: no_leading_space_def)
  have "rev s = takeWhile is_space (rev s) @ dropWhile is_space (rev s)" by simp
  then have "s = rev (dropWhile is_space (rev s)) @ rev (takeWhile is_space (rev s))"
    by (metis rev_append rev_rev_ident)
  moreover have "\<forall>c\<in>set (rev (takeWhile is_space (rev s))). is_space c"
    by (auto dest: set_takeWhileD)
  ultimately show ?thesis unfolding strip_def d by blast
qed

lemma no_leading_space_strip: "no_leading_space (strip s)"
proof -
  let ?t = "dropWhile is_space s"
  have t: "no_leading_space ?t"
    unfolding no_leading_space_def using hd_dropWhile [of is_space s] by blast
  obtain w where w: "?t = strip ?t @ w" using strip_decompose [OF t] by blast
  have st: "strip ?t = strip s" by (simp add: strip_def)
  show ?thesis
  proof (cases "strip s = []")
    case True
    then show ?thesis by (simp add: no_leading_space_def)
  next
    case False
    with w st have h: "hd (strip s) = hd ?t" by (metis hd_append2)
    from False w st have "?t \<noteq> []" by auto
    with t have "\<not> is_space (hd ?t)" unfolding no_leading_space_def by blast
    with h have "\<not> is_space (hd (strip s))" by simp
    then show ?thesis unfolding no_leading_space_def by blast
  qed
qed

lemma no_leading_space_take: "no_leading_space s \<Longrightarrow> no_leading_space (take n s)"
  by (cases s; cases n) (auto simp: no_leading_space_def)

lemma split_ws_from_spaces:
  "\<forall>c\<in>set w. is_space c \<Longrightarrow> split_ws_from acc w = (if acc = [] then [] else [acc])"
  by (induction w arbitrary: acc) auto

lemma split_ws_from_trailing:
  "\<forall>c\<in>set w. is_space c \<Longrightarrow> split_ws_from acc (s @ w) = split_ws_from acc s"
  by (induction s arbitrary: acc) (auto simp: split_ws_from_spaces)

lemma split_ws_strip:
  assumes "no_leading_space s"
  shows "split_ws (strip s) = split_ws s"
proof -
  obtain w where w: "s = strip s @ w" "\<forall>c\<in>set w. is_space c"
    using strip_decompose [OF assms] by blast
  have "split_ws s = split_ws_from [] (strip s @ w)" using w(1) by (simp add: split_ws_def)
  also have "\<dots> = split_ws_from [] (strip s)" using w(2) by (rule split_ws_from_trailing)
  finally show ?thesis by (simp add: split_ws_def)
qed

lemma find_str_strip:
  assumes "no_leading_space s" and "p \<noteq> []" and "\<not> is_space (last p)"
  shows "find_str p (strip s) = find_str p s"
proof -
  obtain w where w: "s = strip s @ w" "\<forall>c\<in>set w. is_space c"
    using strip_decompose [OF assms(1)] by blast
  have "find_str p (strip s @ w) = find_str p (strip s)"
    using w(2) assms(2,3) by (rule find_str_trailing_spaces)
  with w(1) show ?thesis by simp
qed

lemma before_first_strip:
  assumes "no_leading_space s" and "p \<noteq> []" and "\<not> is_space (last p)" and "contains p s"
  shows "before_first p (strip s) = before_first p s"
proof -
  obtain w where w: "s = strip s @ w" using strip_decompose [OF assms(1)] by blast
  from assms(4) obtain i where i: "find_str p s = Some i" by (auto simp: contains_def)
  then have i': "find_str p (strip s) = Some i" using assms by (simp add: find_str_strip)
  from find_str_prefix [OF i'] have "i \<le> length (strip s)" by simp
  then have "take i (strip s @ w) = take i (strip s)" by simp
  with w have "take i s = take i (strip s)" by simp
  with i i' show ?thesis by (simp add: before_first_def)
qed

lemma cut_stop_phrases_refines:
  assumes "\<forall>p\<in>set ps. p \<noteq> [] \<and> \<not> is_space (last p)" and "no_leading_space s"
  shows "cut_stop_phrases ps (strip s) = strip (spec_cut_stop_phrases ps s)"
  using assms
proof (induction ps arbitrary: s)
  case Nil
  then show ?case by simp
next
  case (Cons p ps)
  then have p: "p \<noteq> []" "\<not> is_space (last p)" by auto
  have c: "contains p (strip s) \<longleftrightarrow> contains p s"
    using Cons.prems(2) p by (simp add: contains_def find_str_strip)
  show ?case
  proof (cases "contains p s")
    case True
    have b: "before_first p (strip s) = before_first p s"
      using Cons.prems(2) p True by (rule before_first_strip)
    have "no_leading_space (before_first p s)"
      using Cons.prems(2) by (auto simp: before_first_def no_leading_space_take split: option.splits)
    with Cons.IH Cons.prems(1)
    have "cut_stop_phrases ps (strip (before_first p s)) = strip (spec_cut_stop_phrases ps (before_first p s))"
      by simp
    with True c b show ?thesis by simp
  next
    case False
    with Cons c show ?thesis by simp
  qed
qed

lemma stop_phrases_shape: "\<forall>p\<in>set stop_phrases. p \<noteq> [] \<and> \<not> is_space (last p)"
  by (simp add: stop_phrases_def is_space_def NL_def)

lemma strip_strip: "strip (strip s) = strip s"
proof -
  obtain w where w: "strip s = strip (strip s) @ w" "\<forall>c\<in>set w. is_space c"
    using strip_decompose [OF no_leading_space_strip] by blast
  have "w = []"
  proof (rule ccontr)
    assume "w \<noteq> []"
    then have "last (strip s) = last w" "last w \<in> set w" using w(1) by (metis last_appendR, simp)
    then have sp: "is_space (last (strip s))" using w(2) by auto
    have ne: "strip s \<noteq> []" using w(1) \<open>w \<noteq> []\<close> by auto
    then have "dropWhile is_space (rev (dropWhile is_space s)) \<noteq> []" by (simp add: strip_def)
    then have "\<not> is_space (hd (dropWhile is_space (rev (dropWhile is_space s))))"
      by (rule hd_dropWhile)
    moreover have "last (strip s) = hd (dropWhile is_space (rev (dropWhile is_space s)))"
      using ne by (simp add: strip_def last_rev)
    ultimately show False using sp by simp
  qed
  with w(1) show ?thesis by simp
qed

lemma no_leading_space_spec_cut:
  "no_leading_space s \<Longrightarrow> no_leading_space (spec_cut_stop_phrases ps s)"
proof (induction ps arbitrary: s)
  case Nil
  then show ?case by simp
next
  case (Cons p ps)
  have "no_leading_space (before_first p s)"
    using Cons.prems by (auto simp: before_first_def no_leading_space_take split: option.splits)
  with Cons show ?case by simp
qed

lemma sanitize_refines_spec: "sanitize full_output prompt = spec_sanitize full_output prompt"
proof -
  define s0 where "s0 =
     (if contains ''Summary:'' full_output
      then strip (case after_first ''Summary:'' full_output of Some rest \<Rightarrow> rest | None \<Rightarrow> full_output)
      else strip (replace prompt [] full_output))"
  have n0: "no_leading_space s0" by (simp add: s0_def no_leading_space_strip)
  have i0: "strip s0 = s0" by (simp add: s0_def strip_strip)
  have n1: "no_leading_space (spec_cut_stop_phrases stop_phrases s0)"
    using n0 by (rule no_leading_space_spec_cut)
  have "cut_stop_phrases stop_phrases (strip s0) = strip (spec_cut_stop_phrases stop_phrases s0)"
    using stop_phrases_shape n0 by (rule cut_stop_phrases_refines)
  with i0 have "cut_stop_phrases stop_phrases s0 = strip (spec_cut_stop_phrases stop_phrases s0)"
    by simp
  then have w: "split_ws (cut_stop_phrases stop_phrases s0)
                = split_ws (spec_cut_stop_phrases stop_phrases s0)"
    using n1 by (simp add: split_ws_strip)
  have "sanitize full_output prompt
        = take 800 (join '' '' (split_ws (cut_stop_phrases stop_phrases s0)))"
    unfolding sanitize_def s0_def Let_def by simp
  moreover have "spec_sanitize full_output prompt
        = take 800 (join '' '' (split_ws (spec_cut_stop_phrases stop_phrases s0)))"
    unfolding spec_sanitize_def s0_def Let_def by simp
  ultimately show ?thesis using w by simp
qed

section \<open>The Planner\<close>

text \<open>
  C4. For every input string, the empty string included, \<open>create_plan\<close> returns a plan
  of exactly four steps, numbered 1, 2, 3, 4 in order, whose actions are
  \<open>extract_text\<close>, \<open>clean_text\<close>, \<open>summarize\<close>, \<open>format_output\<close> in that order. The
  function has no failing branch: it is a total function of the path.
\<close>

theorem create_plan_fixed:
  "length (create_plan pdf_path) = 4
   \<and> map step (create_plan pdf_path) = [1, 2, 3, 4]
   \<and> map action (create_plan pdf_path) =
       [''extract_text'', ''clean_text'', ''summarize'', ''format_output'']
   \<and> map step (create_plan []) = [1, 2, 3, 4]"
  by (simp add: create_plan_def)

section \<open>The Section Isolator\<close>

text \<open>
  C6. For every input text, if the marker-extracted result, stripped and with its
  newlines replaced by spaces, is shorter than 50 characters, \<open>_find_abstract\<close> discards
  it and returns the first 2000 characters of the original text with the newlines
  replaced by spaces.
\<close>

theorem find_abstract_short_fallback:
  "length (marker_extract text) < 50 \<Longrightarrow>
     find_abstract text = replace [NL] '' '' (take 2000 text)"
  by (simp add: find_abstract_def Let_def)

theorem find_abstract_short_fallback_witness:
  "length (marker_extract (''Abstract'' @ [NL] @ ''Keywords:'')) < 50
   \<and> find_abstract (''Abstract'' @ [NL] @ ''Keywords:'') = ''Abstract Keywords:''"
proof -
  have short: "length (marker_extract (''Abstract'' @ [NL] @ ''Keywords:'')) < 50"
    by code_simp
  have "replace [NL] '' '' (take 2000 (''Abstract'' @ [NL] @ ''Keywords:'')) = ''Abstract Keywords:''"
    by code_simp
  with find_abstract_short_fallback [OF short] short show ?thesis by simp
qed

text \<open>
  C10. The fallback is not validated again: the output of \<open>_find_abstract\<close> can be
  shorter than 50 characters. The empty text gives the empty string, and every text
  shorter than 50 characters comes back whole, with its newlines replaced by spaces.
\<close>

theorem find_abstract_fallback_unchecked:
  "find_abstract [] = []
   \<and> (length text < 50 \<longrightarrow>
        find_abstract text = replace [NL] '' '' text \<and> length (find_abstract text) < 50)"
proof
  show "find_abstract [] = []" by code_simp
next
  show "length text < 50 \<longrightarrow>
        find_abstract text = replace [NL] '' '' text \<and> length (find_abstract text) < 50"
  proof
    assume len: "length text < 50"
    have "length (marker_extract text) \<le> length text" by (rule length_marker_extract_le)
    with len have "length (marker_extract text) < 50" by simp
    then have "find_abstract text = replace [NL] '' '' (take 2000 text)"
      by (simp add: find_abstract_def Let_def)
    with len have eq: "find_abstract text = replace [NL] '' '' text" by simp
    with len show "find_abstract text = replace [NL] '' '' text \<and> length (find_abstract text) < 50"
      by (simp add: length_replace_char)
  qed
qed

theorem find_abstract_fallback_unchecked_witness:
  "length ''No markers here'' < 50
   \<and> find_abstract ''No markers here'' = ''No markers here''
   \<and> length (find_abstract ''No markers here'') < 50"
proof -
  have len: "length ''No markers here'' < 50" by simp
  have "replace [NL] '' '' ''No markers here'' = ''No markers here''" by code_simp
  with find_abstract_fallback_unchecked [of "''No markers here''"] len show ?thesis by simp
qed

text \<open>
  C5, as the code has it. The marker that wins is determined by its position in the
  list, not by where it occurs: the start marker is the first entry of the start list
  that occurs in the input text, and the text after its first occurrence is kept; the
  end marker is the first entry of the end list that occurs in that working text, which
  is cut at its first occurrence, whatever later entries occur before it. For a text
  with \<open>Abstract\<close> and, after it, \<open>Keywords:\<close>, the output is the text strictly between
  the first \<open>Abstract\<close> and the first \<open>Keywords:\<close> that follows, stripped and with its
  newlines replaced by spaces, provided that this result has at least 50 characters.
\<close>

theorem find_abstract_marker_priority:
  "(i < length start_keywords \<and> text = pre @ start_keywords ! i @ post
      \<and> \<not> contains (start_keywords ! i) (pre @ butlast (start_keywords ! i))
      \<and> (\<forall>j<i. \<not> contains (start_keywords ! j) text)
    \<longrightarrow> start_stage text = post)
   \<and> (n < length end_keywords \<and> working = before @ end_keywords ! n @ after
      \<and> \<not> contains (end_keywords ! n) (before @ butlast (end_keywords ! n))
      \<and> (\<forall>j<n. \<not> contains (end_keywords ! j) working)
    \<longrightarrow> find_end end_keywords working = before)
   \<and> (\<not> contains ''Abstract'' (head @ ''Abstrac'')
      \<and> \<not> contains ''Keywords:'' (mid @ ''Keywords'')
      \<and> 50 \<le> length (cleanup mid)
    \<longrightarrow> find_abstract (head @ ''Abstract'' @ mid @ ''Keywords:'' @ rest) = cleanup mid)"
proof (intro conjI impI)
  assume a: "i < length start_keywords \<and> text = pre @ start_keywords ! i @ post
      \<and> \<not> contains (start_keywords ! i) (pre @ butlast (start_keywords ! i))
      \<and> (\<forall>j<i. \<not> contains (start_keywords ! j) text)"
  then have "find_start start_keywords (pre @ start_keywords ! i @ post) = Some post"
    by (intro find_start_priority start_keywords_nonempty) auto
  with a show "start_stage text = post" by (simp add: start_stage_def)
next
  assume a: "n < length end_keywords \<and> working = before @ end_keywords ! n @ after
      \<and> \<not> contains (end_keywords ! n) (before @ butlast (end_keywords ! n))
      \<and> (\<forall>j<n. \<not> contains (end_keywords ! j) working)"
  then have "find_end end_keywords (before @ end_keywords ! n @ after) = before"
    by (intro find_end_priority end_keywords_nonempty) auto
  with a show "find_end end_keywords working = before" by simp
next
  assume a: "\<not> contains ''Abstract'' (head @ ''Abstrac'')
      \<and> \<not> contains ''Keywords:'' (mid @ ''Keywords'')
      \<and> 50 \<le> length (cleanup mid)"
  have "start_stage (head @ ''Abstract'' @ mid @ ''Keywords:'' @ rest) = mid @ ''Keywords:'' @ rest"
    using a by (intro start_stage_Abstract) simp
  moreover have "find_end end_keywords (mid @ ''Keywords:'' @ rest) = mid"
    using a by (intro find_end_Keywords) simp
  ultimately have "marker_extract (head @ ''Abstract'' @ mid @ ''Keywords:'' @ rest) = cleanup mid"
    by (simp add: marker_extract_def)
  with a show "find_abstract (head @ ''Abstract'' @ mid @ ''Keywords:'' @ rest) = cleanup mid"
    by (simp add: find_abstract_def Let_def)
qed

theorem find_abstract_marker_priority_witness:
  "start_stage ''Introduction and Summary follow'' = '' follow''
   \<and> find_end end_keywords ''body text Contents more Keywords: k'' = ''body text Contents more ''
   \<and> find_abstract (''1. Introduction is elsewhere. '' @ ''Abstract''
        @ ([NL] @ ''We study a thing that is quite'' @ [NL] @ ''interesting and rather long indeed.  '' @ [NL])
        @ ''Keywords:'' @ '' a, b'')
      = ''We study a thing that is quite interesting and rather long indeed.''"
proof (intro conjI)
  have k2: "start_keywords ! 2 = ''Summary''" by (simp add: start_keywords_def)
  have n0: "\<not> contains (start_keywords ! 0) ''Introduction and Summary follow''" by code_simp
  have n1: "\<not> contains (start_keywords ! 1) ''Introduction and Summary follow''" by code_simp
  have earlier: "\<forall>j<2. \<not> contains (start_keywords ! j) ''Introduction and Summary follow''"
    using n0 n1 by (auto simp: less_Suc_eq numeral_2_eq_2)
  have first: "\<not> contains (start_keywords ! 2) (''Introduction and '' @ butlast (start_keywords ! 2))"
    by code_simp
  have "2 < length start_keywords" by (simp add: start_keywords_def)
  moreover have "''Introduction and Summary follow'' = ''Introduction and '' @ start_keywords ! 2 @ '' follow''"
    by (simp add: k2)
  ultimately show "start_stage ''Introduction and Summary follow'' = '' follow''"
    using find_abstract_marker_priority
      [of 2 "''Introduction and Summary follow''" "''Introduction and ''" "'' follow''"]
      first earlier by blast
next
  have k0: "end_keywords ! 0 = ''Keywords:''" by (simp add: end_keywords_def)
  have first: "\<not> contains (end_keywords ! 0) (''body text Contents more '' @ butlast (end_keywords ! 0))"
    by code_simp
  have "0 < length end_keywords" by (simp add: end_keywords_def)
  moreover have "''body text Contents more Keywords: k'' = ''body text Contents more '' @ end_keywords ! 0 @ '' k''"
    by (simp add: k0)
  ultimately show "find_end end_keywords ''body text Contents more Keywords: k'' = ''body text Contents more ''"
    using find_abstract_marker_priority
      [of _ _ _ _ 0 "''body text Contents more Keywords: k''" "''body text Contents more ''" "'' k''"]
      first by blast
next
  let ?mid = "[NL] @ ''We study a thing that is quite'' @ [NL] @ ''interesting and rather long indeed.  '' @ [NL]"
  have a: "\<not> contains ''Abstract'' (''1. Introduction is elsewhere. '' @ ''Abstrac'')" by code_simp
  have b: "\<not> contains ''Keywords:'' (?mid @ ''Keywords'')" by code_simp
  have c: "cleanup ?mid = ''We study a thing that is quite interesting and rather long indeed.''"
    by code_simp
  have d: "50 \<le> length (cleanup ?mid)" by (simp only: c) simp
  from find_abstract_marker_priority
      [of _ _ _ _ _ _ _ _  "''1. Introduction is elsewhere. ''" ?mid "'' a, b''"] a b d
  have "find_abstract (''1. Introduction is elsewhere. '' @ ''Abstract'' @ ?mid @ ''Keywords:'' @ '' a, b'')
        = cleanup ?mid" by blast
  with c show "find_abstract (''1. Introduction is elsewhere. '' @ ''Abstract'' @ ?mid @ ''Keywords:'' @ '' a, b'')
      = ''We study a thing that is quite interesting and rather long indeed.''" by simp
qed

text \<open>
  Without the proviso on the length the statement fails: with nothing but a newline
  between the two markers, the cleaned text between them is empty and the output is the
  whole input with the newline replaced.
\<close>

theorem find_abstract_between_counterexample:
  "cleanup [NL] = []
   \<and> find_abstract ([] @ ''Abstract'' @ [NL] @ ''Keywords:'' @ []) = ''Abstract Keywords:''
   \<and> find_abstract ([] @ ''Abstract'' @ [NL] @ ''Keywords:'' @ []) \<noteq> cleanup [NL]"
  by code_simp

section \<open>The Output Sanitizer\<close>

text \<open>
  C8. For every decoded model output and every prompt, the sanitized summary has at
  most 800 characters.
\<close>

theorem sanitize_length_bound: "length (sanitize full_output prompt) \<le> 800"
  by (simp add: sanitize_def Let_def)

text \<open>
  C7. The stop phrases are applied in the order of the list, each to the summary as the
  phrases before it left it: a phrase that occurs cuts the summary to the text before
  its first occurrence (which the source also strips), a phrase that does not occur
  leaves it as it is. The decoded output
  \<open>Summary: Paper shows X. Figure 1 shows Y.\<close> is sanitized to \<open>Paper shows X.\<close>,
  whatever the prompt. The strips of the source change nothing in the result: for every
  output and prompt, \<open>sanitize\<close> returns what the procedure without them returns.
\<close>

theorem sanitize_stop_phrases_in_order:
  "sanitize ''Summary: Paper shows X. Figure 1 shows Y.'' prompt = ''Paper shows X.''
   \<and> (phrase \<noteq> [] \<and> \<not> contains phrase (pre @ butlast phrase) \<longrightarrow>
        cut_stop_phrases (phrase # ps) (pre @ phrase @ post) = cut_stop_phrases ps (strip pre))
   \<and> (\<not> contains phrase summary \<longrightarrow>
        cut_stop_phrases (phrase # ps) summary = cut_stop_phrases ps summary)
   \<and> sanitize full_output prompt = spec_sanitize full_output prompt"
proof (intro conjI impI)
  have c: "contains ''Summary:'' ''Summary: Paper shows X. Figure 1 shows Y.''" by code_simp
  have a: "after_first ''Summary:'' ''Summary: Paper shows X. Figure 1 shows Y.'' = Some '' Paper shows X. Figure 1 shows Y.''"
    by code_simp
  have s: "strip '' Paper shows X. Figure 1 shows Y.'' = ''Paper shows X. Figure 1 shows Y.''"
    by code_simp
  have k: "cut_stop_phrases stop_phrases ''Paper shows X. Figure 1 shows Y.'' = ''Paper shows X.''"
    by code_simp
  have j: "join '' '' (split_ws ''Paper shows X.'') = ''Paper shows X.''" by code_simp
  show "sanitize ''Summary: Paper shows X. Figure 1 shows Y.'' prompt = ''Paper shows X.''"
    unfolding sanitize_def by (simp only: c a s k j Let_def if_True option.case) simp
next
  assume "phrase \<noteq> [] \<and> \<not> contains phrase (pre @ butlast phrase)"
  then show "cut_stop_phrases (phrase # ps) (pre @ phrase @ post) = cut_stop_phrases ps (strip pre)"
    by (simp add: contains_first before_first_eq)
next
  assume "\<not> contains phrase summary"
  then show "cut_stop_phrases (phrase # ps) summary = cut_stop_phrases ps summary" by simp
next
  show "sanitize full_output prompt = spec_sanitize full_output prompt"
    by (rule sanitize_refines_spec)
qed

theorem sanitize_stop_phrases_in_order_witness:
  "cut_stop_phrases [''Figure'', ''Table''] (''A. Table 1. '' @ ''Figure'' @ '' 2.'') = ''A.''
   \<and> cut_stop_phrases [''Table''] ''Paper shows X.'' = ''Paper shows X.''"
proof
  have ne: "''Figure'' \<noteq> []" by simp
  have first: "\<not> contains ''Figure'' (''A. Table 1. '' @ butlast ''Figure'')" by code_simp
  have rest: "cut_stop_phrases [''Table''] (strip ''A. Table 1. '') = ''A.''" by code_simp
  from sanitize_stop_phrases_in_order
         [of _ "''Figure''" "''A. Table 1. ''" "[''Table'']" "'' 2.''"] ne first
  have "cut_stop_phrases [''Figure'', ''Table''] (''A. Table 1. '' @ ''Figure'' @ '' 2.'')
        = cut_stop_phrases [''Table''] (strip ''A. Table 1. '')" by blast
  with rest show "cut_stop_phrases [''Figure'', ''Table''] (''A. Table 1. '' @ ''Figure'' @ '' 2.'') = ''A.''"
    by simp
next
  have absent: "\<not> contains ''Table'' ''Paper shows X.''" by code_simp
  from sanitize_stop_phrases_in_order [of _ "''Table''" _ "[]" _ "''Paper shows X.''"] absent
  show "cut_stop_phrases [''Table''] ''Paper shows X.'' = ''Paper shows X.''" by simp
qed

section \<open>The Text Extractor\<close>

text \<open>
  C9. For every path, \<open>extract_text_from_pdf\<close> returns a dictionary and lets no
  exception out. For a missing file the dictionary has \<open>success = False\<close> and the error
  text \<open>File not found:\<close> followed by the path; for any other exception raised inside,
  it has \<open>success = False\<close> and the message of the exception as error text.
\<close>

theorem extract_text_from_pdf_total:
  "\<exists>r. extract_text_from_pdf file_system pdf_path = Inr r
       \<and> (\<forall>msg. file_system pdf_path = Inl (FileNotFoundError msg) \<longrightarrow>
              \<not> success r \<and> error r = Some (''File not found: '' @ pdf_path))
       \<and> (\<forall>e. extract_body file_system pdf_path = Inl e \<and> (\<forall>msg. e \<noteq> FileNotFoundError msg) \<longrightarrow>
              \<not> success r \<and> error r = Some (str_exn e))"
proof (cases "extract_body file_system pdf_path")
  case (Inl e)
  then show ?thesis
    by (cases e) (auto simp: extract_text_from_pdf_def extract_body_def split: sum.splits)
next
  case (Inr r)
  then show ?thesis
    by (auto simp: extract_text_from_pdf_def extract_body_def split: sum.splits)
qed

theorem extract_text_from_pdf_total_witness:
  "\<exists>r. extract_text_from_pdf (\<lambda>p. Inl (FileNotFoundError ''No such file or directory'')) ''missing.pdf'' = Inr r
       \<and> \<not> success r \<and> error r = Some ''File not found: missing.pdf''"
  using extract_text_from_pdf_total
          [of "\<lambda>p. Inl (FileNotFoundError ''No such file or directory'')" "''missing.pdf''"]
  by auto

section \<open>The Executor\<close>

text \<open>
  C3. When extraction succeeds and the model call of the summarize step raises,
  \<open>execute_plan\<close> on the plan of \<open>create_plan\<close> catches the exception and returns a
  result with the message of the exception under \<open>error\<close> and the isolated section
  under \<open>clean_text\<close>, and with neither \<open>summary\<close> nor \<open>final_summary\<close>.
\<close>

theorem execute_plan_summarizer_raises:
  assumes "extract_text_from_pdf file_system pdf_path = Inr x" and "success x"
    and "generate (make_prompt (find_abstract (extracted_text x))) = Inl e"
  shows "execute_plan generate file_system (create_plan pdf_path) ''error'' = Some (Str (str_exn e))
       \<and> execute_plan generate file_system (create_plan pdf_path) ''clean_text''
           = Some (Str (find_abstract (extracted_text x)))
       \<and> ''summary'' \<notin> dom (execute_plan generate file_system (create_plan pdf_path))
       \<and> ''final_summary'' \<notin> dom (execute_plan generate file_system (create_plan pdf_path))"
  using assms by (simp add: plan_summarizer_raises dom_def)

theorem execute_plan_summarizer_raises_witness:
  "execute_plan (\<lambda>prompt. Inl (OtherError ''CUDA out of memory''))
     (\<lambda>path. Inr \<lparr> pages = Inr [Inr ''A short paper.''], doc_info = Inr None \<rparr>)
     (create_plan ''paper.pdf'') ''error'' = Some (Str ''CUDA out of memory'')
   \<and> execute_plan (\<lambda>prompt. Inl (OtherError ''CUDA out of memory''))
     (\<lambda>path. Inr \<lparr> pages = Inr [Inr ''A short paper.''], doc_info = Inr None \<rparr>)
     (create_plan ''paper.pdf'') ''clean_text'' = Some (Str ''A short paper.'')
   \<and> ''summary'' \<notin> dom (execute_plan (\<lambda>prompt. Inl (OtherError ''CUDA out of memory''))
     (\<lambda>path. Inr \<lparr> pages = Inr [Inr ''A short paper.''], doc_info = Inr None \<rparr>)
     (create_plan ''paper.pdf''))
   \<and> ''final_summary'' \<notin> dom (execute_plan (\<lambda>prompt. Inl (OtherError ''CUDA out of memory''))
     (\<lambda>path. Inr \<lparr> pages = Inr [Inr ''A short paper.''], doc_info = Inr None \<rparr>)
     (create_plan ''paper.pdf''))"
proof -
  let ?fs = "\<lambda>path::string. Inr \<lparr> pages = Inr [Inr ''A short paper.''], doc_info = Inr None \<rparr>
               :: exn + pdf_reader"
  let ?gen = "\<lambda>prompt::string. Inl (OtherError ''CUDA out of memory'') :: exn + string"
  let ?x = "\<lparr> extracted_text = ''A short paper.'',
              metadata = Some \<lparr> num_pages = 1, title = ''Unknown'' \<rparr>,
              success = True, error = None \<rparr>"
  have x: "extract_text_from_pdf ?fs ''paper.pdf'' = Inr ?x"
    by code_simp
  have s: "success ?x" by simp
  have g: "?gen (make_prompt (find_abstract (extracted_text ?x))) = Inl (OtherError ''CUDA out of memory'')"
    by simp
  have f: "find_abstract ''A short paper.'' = ''A short paper.''" by code_simp
  from execute_plan_summarizer_raises [OF x s g] f show ?thesis by simp
qed

text \<open>
  C1, at a missing file. The extractor reports failure, and the result that
  \<open>execute_plan\<close> returns for the plan of \<open>create_plan\<close> has neither the key
  \<open>final_summary\<close> nor the key \<open>error\<close>: the early return of the extraction step leaves
  without storing \<open>error\<close>, which the exception handler of the same loop does store.
\<close>

theorem execute_plan_missing_file_neither_key:
  "''final_summary'' \<notin> dom (execute_plan (\<lambda>prompt. Inr ''Summary: none'')
       (\<lambda>path. Inl (FileNotFoundError ''No such file or directory''))
       (create_plan ''missing.pdf''))
   \<and> ''error'' \<notin> dom (execute_plan (\<lambda>prompt. Inr ''Summary: none'')
       (\<lambda>path. Inl (FileNotFoundError ''No such file or directory''))
       (create_plan ''missing.pdf''))"
proof -
  have "extract_text_from_pdf (\<lambda>path. Inl (FileNotFoundError ''No such file or directory'')) ''missing.pdf''
        = Inr \<lparr> extracted_text = [], metadata = None, success = False,
                error = Some ''File not found: missing.pdf'' \<rparr>"
    by (simp add: extract_text_from_pdf_def extract_body_def)
  then show ?thesis by (simp add: plan_failed_extraction)
qed

text \<open>
  C2, at a missing file. The result of \<open>execute_plan\<close> is the dictionary with the one
  key \<open>extracted\<close>: no further step has run and none of \<open>clean_text\<close>, \<open>summary\<close>,
  \<open>final_summary\<close> is there, but the key \<open>error\<close> is not stored either; the error text
  is only inside the extraction result.
\<close>

theorem execute_plan_missing_file_result:
  "execute_plan (\<lambda>prompt. Inr ''Summary: none'')
       (\<lambda>path. Inl (FileNotFoundError ''No such file or directory''))
       (create_plan ''missing.pdf'')
   = [''extracted'' \<mapsto> Extraction \<lparr> extracted_text = [], metadata = None, success = False,
                error = Some ''File not found: missing.pdf'' \<rparr>]"
proof -
  have "extract_text_from_pdf (\<lambda>path. Inl (FileNotFoundError ''No such file or directory'')) ''missing.pdf''
        = Inr \<lparr> extracted_text = [], metadata = None, success = False,
                error = Some ''File not found: missing.pdf'' \<rparr>"
    by (simp add: extract_text_from_pdf_def extract_body_def)
  then show ?thesis by (simp add: plan_failed_extraction)
qed

end
